theory Spec2Isabelle
  imports Main "HOL-Library.AList" "HOL-Library.Word"
begin

section \<open>The owning float buffer of Chapter02/mybuffer.cpp\<close>

text \<open>
  The class \<^verbatim>\<open>Buffer\<close> owns a \<^verbatim>\<open>new float[]\<close> array through a raw pointer. Its member
  functions take \<^verbatim>\<open>this\<close> and \<^verbatim>\<open>other\<close> by reference, so two names may denote one
  object, and pointers of different objects may denote one array. Both kinds of aliasing
  are kept: objects live in an object store indexed by their identity, arrays live in a
  free store indexed by their base address, and every member function is a sequence of
  reads and writes of these stores in the order of the source's statements.
\<close>

subsection \<open>Data model\<close>

text \<open>
  A \<^verbatim>\<open>float\<close> is its 32-bit pattern; the program only copies floats. A cell of a
  \<^verbatim>\<open>new float[n]\<close> array holds no determinate value (\<open>None\<close>) until one is stored.
  Address \<open>0\<close> is \<^verbatim>\<open>nullptr\<close>. The program only holds pointers to the first cell of an
  array (\<^verbatim>\<open>ptr_\<close> is assigned from \<^verbatim>\<open>new\<close>, from another \<^verbatim>\<open>ptr_\<close> or from
  \<^verbatim>\<open>nullptr\<close>), so an address names a whole array and \<^verbatim>\<open>ptr_[i]\<close> is an index into it.
  \<^verbatim>\<open>size_t\<close> values are natural numbers: the program never does arithmetic on them.
  The members \<^verbatim>\<open>size_\<close> and \<^verbatim>\<open>ptr_\<close> are the fields \<open>size_'\<close> and \<open>ptr_'\<close> (a name cannot end
  with an underscore here).
\<close>

type_synonym float = "32 word"
type_synonym cell = "float option"
type_synonym addr = nat
type_synonym obj = nat

record Buffer =
  size_' :: nat
  ptr_' :: addr

text \<open>
  The state: the \<^verbatim>\<open>Buffer\<close> objects, the live arrays of the free store, and the number of
  cells the free store can still hand out (what makes \<^verbatim>\<open>new\<close> throw).
\<close>

record state =
  objs :: "obj \<Rightarrow> Buffer"
  blocks :: "(addr \<times> cell list) list"
  avail :: nat

text \<open>
  \<^verbatim>\<open>std::bad_alloc\<close> is an exception: it carries the state in which it leaves the member
  function. The other two are undefined behaviour: \<^verbatim>\<open>delete[]\<close> of a pointer that is
  neither null nor a live array, and an access through a null pointer or outside a live
  array.
\<close>

datatype error = bad_alloc state | invalid_delete | invalid_access

subsection \<open>The free store\<close>

text \<open>
  \<^verbatim>\<open>new float[n]\<close> returns a non-null address different from every live array, also for
  \<open>n = 0\<close>, or throws. The address chosen is one past the largest live address, so an
  address may be handed out again after its array was deleted.
\<close>

fun fresh_addr :: "(addr \<times> cell list) list \<Rightarrow> addr" where
  "fresh_addr [] = 1"
| "fresh_addr (b # bs) = max (Suc (fst b)) (fresh_addr bs)"

definition new_float_array :: "state \<Rightarrow> nat \<Rightarrow> error + (addr \<times> state)" where
  "new_float_array s n =
     (if avail s < n then Inl (bad_alloc s)
      else Inr (fresh_addr (blocks s),
                s\<lparr>blocks := (fresh_addr (blocks s), replicate n None) # blocks s,
                  avail := avail s - n\<rparr>))"

definition delete_array :: "state \<Rightarrow> addr \<Rightarrow> error + state" where
  "delete_array s p =
     (if p = 0 then Inr s
      else case map_of (blocks s) p of
             None \<Rightarrow> Inl invalid_delete
           | Some cs \<Rightarrow> Inr (s\<lparr>blocks := AList.delete p (blocks s),
                               avail := avail s + length cs\<rparr>))"

definition load :: "state \<Rightarrow> addr \<Rightarrow> nat \<Rightarrow> error + cell" where
  "load s p i =
     (if p = 0 then Inl invalid_access
      else case map_of (blocks s) p of
             None \<Rightarrow> Inl invalid_access
           | Some cs \<Rightarrow> if i < length cs then Inr (cs ! i) else Inl invalid_access)"

definition store :: "state \<Rightarrow> addr \<Rightarrow> nat \<Rightarrow> cell \<Rightarrow> error + state" where
  "store s p i c =
     (if p = 0 then Inl invalid_access
      else case map_of (blocks s) p of
             None \<Rightarrow> Inl invalid_access
           | Some cs \<Rightarrow> if i < length cs
                        then Inr (s\<lparr>blocks := AList.update p (cs[i := c]) (blocks s)\<rparr>)
                        else Inl invalid_access)"

text \<open>
  \<^verbatim>\<open>std::copy(first, first + k, d_first)\<close> on arrays: \<open>k\<close> assignments
  \<^verbatim>\<open>d_first[i] = first[i]\<close> with \<open>i\<close> going up; an empty range touches nothing.
\<close>

fun std_copy :: "state \<Rightarrow> addr \<Rightarrow> addr \<Rightarrow> nat \<Rightarrow> nat \<Rightarrow> error + state" where
  "std_copy s first d_first i 0 = Inr s"
| "std_copy s first d_first i (Suc k) =
     (case load s first i of
        Inl e \<Rightarrow> Inl e
      | Inr c \<Rightarrow> (case store s d_first i c of
                    Inl e \<Rightarrow> Inl e
                  | Inr s' \<Rightarrow> std_copy s' first d_first (Suc i) k))"

text \<open>The same from an initializer list, whose elements are values, not cells.\<close>

fun std_copy_values :: "state \<Rightarrow> float list \<Rightarrow> addr \<Rightarrow> nat \<Rightarrow> error + state" where
  "std_copy_values s [] d_first i = Inr s"
| "std_copy_values s (v # vs) d_first i =
     (case store s d_first i (Some v) of
        Inl e \<Rightarrow> Inl e
      | Inr s' \<Rightarrow> std_copy_values s' vs d_first (Suc i))"

subsection \<open>Member access\<close>

definition set_size :: "state \<Rightarrow> obj \<Rightarrow> nat \<Rightarrow> state" where
  "set_size s this n = s\<lparr>objs := (objs s)(this := (objs s this)\<lparr>size_' := n\<rparr>)\<rparr>"

definition set_ptr :: "state \<Rightarrow> obj \<Rightarrow> addr \<Rightarrow> state" where
  "set_ptr s this p = s\<lparr>objs := (objs s)(this := (objs s this)\<lparr>ptr_' := p\<rparr>)\<rparr>"

subsection \<open>The member functions\<close>

text \<open>
  \<^verbatim>\<open>Buffer(const std::initializer_list<float>& values)\<close>: the members are initialised in
  the order of their declaration, \<^verbatim>\<open>size_\<close> then \<^verbatim>\<open>ptr_\<close>, then the body copies.
\<close>

definition Buffer_ctor :: "state \<Rightarrow> obj \<Rightarrow> float list \<Rightarrow> error + state" where
  "Buffer_ctor s this values =
     (let s1 = set_size s this (length values) in
      case new_float_array s1 (length values) of
        Inl e \<Rightarrow> Inl e
      | Inr (p, s2) \<Rightarrow>
          (let s3 = set_ptr s2 this p in
           std_copy_values s3 values (ptr_' (objs s3 this)) 0))"

text \<open>
  \<^verbatim>\<open>Buffer(const Buffer& other)\<close>: \<^verbatim>\<open>size_\<close> is initialised from \<^verbatim>\<open>other.size_\<close>,
  \<^verbatim>\<open>ptr_\<close> by its default member initialiser \<^verbatim>\<open>nullptr\<close>; the body allocates and
  copies.
\<close>

definition Buffer_copy_ctor :: "state \<Rightarrow> obj \<Rightarrow> obj \<Rightarrow> error + state" where
  "Buffer_copy_ctor s this other =
     (let s0 = set_size s this (size_' (objs s other));
          s1 = set_ptr s0 this 0 in
      case new_float_array s1 (size_' (objs s1 this)) of
        Inl e \<Rightarrow> Inl e
      | Inr (p, s2) \<Rightarrow>
          (let s3 = set_ptr s2 this p in
           std_copy s3 (ptr_' (objs s3 other)) (ptr_' (objs s3 this)) 0 (size_' (objs s3 this))))"

text \<open>
  \<^verbatim>\<open>Buffer& operator=(const Buffer& other)\<close>: \<^verbatim>\<open>delete[] ptr_\<close>, then
  \<^verbatim>\<open>ptr_ = new float[other.size_]\<close>, then \<^verbatim>\<open>size_ = other.size_\<close>, then the copy.
  Every member is read when its statement runs, so \<^verbatim>\<open>other\<close> is read after the writes
  to \<^verbatim>\<open>this\<close>.
\<close>

definition Buffer_copy_assign :: "state \<Rightarrow> obj \<Rightarrow> obj \<Rightarrow> error + state" where
  "Buffer_copy_assign s this other =
     (case delete_array s (ptr_' (objs s this)) of
        Inl e \<Rightarrow> Inl e
      | Inr s1 \<Rightarrow>
          (case new_float_array s1 (size_' (objs s1 other)) of
             Inl e \<Rightarrow> Inl e
           | Inr (p, s2) \<Rightarrow>
               (let s3 = set_ptr s2 this p;
                    s4 = set_size s3 this (size_' (objs s3 other)) in
                std_copy s4 (ptr_' (objs s4 other)) (ptr_' (objs s4 this)) 0
                  (size_' (objs s4 this)))))"

text \<open>\<^verbatim>\<open>~Buffer()\<close>: \<^verbatim>\<open>delete[] ptr_; ptr_ = nullptr;\<close> (the debug line is output only).\<close>

definition Buffer_dtor :: "state \<Rightarrow> obj \<Rightarrow> error + state" where
  "Buffer_dtor s this =
     (case delete_array s (ptr_' (objs s this)) of
        Inl e \<Rightarrow> Inl e
      | Inr s1 \<Rightarrow> Inr (set_ptr s1 this 0))"

text \<open>\<^verbatim>\<open>Buffer(Buffer&& other) noexcept\<close>\<close>

definition Buffer_move_ctor :: "state \<Rightarrow> obj \<Rightarrow> obj \<Rightarrow> state" where
  "Buffer_move_ctor s this other =
     (let s1 = set_size s this (size_' (objs s other));
          s2 = set_ptr s1 this (ptr_' (objs s1 other));
          s3 = set_ptr s2 other 0
      in set_size s3 other 0)"

text \<open>\<^verbatim>\<open>Buffer& operator=(Buffer&& other) noexcept\<close>\<close>

definition Buffer_move_assign :: "state \<Rightarrow> obj \<Rightarrow> obj \<Rightarrow> state" where
  "Buffer_move_assign s this other =
     (let s1 = set_ptr s this (ptr_' (objs s other));
          s2 = set_size s1 this (size_' (objs s1 other));
          s3 = set_ptr s2 other 0
      in set_size s3 other 0)"

text \<open>
  \<^verbatim>\<open>void swap(Buffer& other) noexcept\<close>: two \<^verbatim>\<open>std::swap\<close>s, each a move through a
  temporary.
\<close>

definition Buffer_swap :: "state \<Rightarrow> obj \<Rightarrow> obj \<Rightarrow> state" where
  "Buffer_swap s this other =
     (let tmp = size_' (objs s this);
          s1 = set_size s this (size_' (objs s other));
          s2 = set_size s1 other tmp;
          tmp' = ptr_' (objs s2 this);
          s3 = set_ptr s2 this (ptr_' (objs s2 other))
      in set_ptr s3 other tmp')"

text \<open>
  \<^verbatim>\<open>printBuffer\<close> reads \<^verbatim>\<open>ptr_[i]\<close> for \<open>i = 0, ..., size_ - 1\<close>; it is the only way the
  class lets its elements be read back. The model returns the cells read, in order
  (\<open>k\<close> counts the iterations left).
\<close>

fun read_cells :: "state \<Rightarrow> addr \<Rightarrow> nat \<Rightarrow> nat \<Rightarrow> error + cell list" where
  "read_cells s p i 0 = Inr []"
| "read_cells s p i (Suc k) =
     (case load s p i of
        Inl e \<Rightarrow> Inl e
      | Inr c \<Rightarrow> (case read_cells s p (Suc i) k of
                    Inl e \<Rightarrow> Inl e
                  | Inr cs \<Rightarrow> Inr (c # cs)))"

definition printBuffer :: "state \<Rightarrow> obj \<Rightarrow> error + cell list" where
  "printBuffer s this = read_cells s (ptr_' (objs s this)) 0 (size_' (objs s this))"

subsection \<open>States and properties of states\<close>

text \<open>
  Before any constructor has run no array is live; every object slot holds the default
  member initialisers \<^verbatim>\<open>size_{0}\<close> and \<^verbatim>\<open>ptr_{nullptr}\<close>, and the free store can
  hand out \<open>cap\<close> cells.
\<close>

definition init_state :: "nat \<Rightarrow> state" where
  "init_state cap = \<lparr>objs = (\<lambda>_. \<lparr>size_' = 0, ptr_' = 0\<rparr>), blocks = [], avail = cap\<rparr>"

text \<open>
  A buffer is valid when it is in the empty state (null pointer, size 0) or its pointer
  is the address of a live array of exactly \<^verbatim>\<open>size_\<close> cells.
\<close>

definition valid_buffer :: "state \<Rightarrow> obj \<Rightarrow> bool" where
  "valid_buffer s b =
     (if ptr_' (objs s b) = 0 then size_' (objs s b) = 0
      else case map_of (blocks s) (ptr_' (objs s b)) of
             None \<Rightarrow> False
           | Some cs \<Rightarrow> length cs = size_' (objs s b))"

text \<open>The invariant of the data model: a buffer of size 0 has a null pointer.\<close>

definition empty_is_null :: "state \<Rightarrow> obj \<Rightarrow> bool" where
  "empty_is_null s b = (if size_' (objs s b) = 0 then ptr_' (objs s b) = 0 else True)"

text \<open>The bit patterns of \<^verbatim>\<open>1.0f\<close>, \<^verbatim>\<open>2.0f\<close> and \<^verbatim>\<open>3.0f\<close>.\<close>

abbreviation f1 :: float where "f1 \<equiv> 1065353216"
abbreviation f2 :: float where "f2 \<equiv> 1073741824"
abbreviation f3 :: float where "f3 \<equiv> 1077936128"

text \<open>
  The state after \<^verbatim>\<open>Buffer b1{1.0f, 2.0f, 3.0f};\<close> as in \<^verbatim>\<open>main\<close>, with \<open>b1\<close> object 0
  and room for \<open>r\<close> more cells.
\<close>

definition one_buffer :: "nat \<Rightarrow> state" where
  "one_buffer r =
     \<lparr>objs = (\<lambda>_. \<lparr>size_' = 0, ptr_' = 0\<rparr>)(0 := \<lparr>size_' = 3, ptr_' = 1\<rparr>),
      blocks = [(1, [Some f1, Some f2, Some f3])],
      avail = r\<rparr>"

text \<open>
  The state after \<^verbatim>\<open>Buffer d{1.0f, 2.0f}; Buffer s{1.0f, 2.0f, 3.0f};\<close> with \<open>d\<close>
  object 0, \<open>s\<close> object 1 and room for \<open>r\<close> more cells.
\<close>

definition two_buffers :: "nat \<Rightarrow> state" where
  "two_buffers r =
     \<lparr>objs = (\<lambda>_. \<lparr>size_' = 0, ptr_' = 0\<rparr>)
               (0 := \<lparr>size_' = 2, ptr_' = 1\<rparr>, 1 := \<lparr>size_' = 3, ptr_' = 2\<rparr>),
      blocks = [(2, [Some f1, Some f2, Some f3]), (1, [Some f1, Some f2])],
      avail = r\<rparr>"

section \<open>The free store and the copy loops\<close>

lemma fresh_addr_nonnull: "fresh_addr bs \<noteq> 0"
  by (induction bs) auto

lemma fresh_addr_above: "a \<in> fst ` set bs \<Longrightarrow> a < fresh_addr bs"
  by (induction bs) (auto simp: less_max_iff_disj)

lemma fresh_addr_unused: "map_of bs (fresh_addr bs) = None"
proof -
  have "fresh_addr bs \<notin> fst ` set bs"
    using fresh_addr_above [of "fresh_addr bs" bs] by auto
  then show ?thesis
    by (simp add: map_of_eq_None_iff)
qed

lemma read_cells_live:
  "p \<noteq> 0 \<Longrightarrow> map_of (blocks s) p = Some cs \<Longrightarrow> i + k \<le> length cs \<Longrightarrow>
   read_cells s p i k = Inr (take k (drop i cs))"
proof (induction k arbitrary: i)
  case 0
  then show ?case by simp
next
  case (Suc k)
  from Suc.prems have "i < length cs" by simp
  then have "take (Suc k) (drop i cs) = cs ! i # take k (drop (Suc i) cs)"
    by (metis Cons_nth_drop_Suc take_Suc_Cons)
  with Suc show ?case
    by (simp add: load_def)
qed

lemma std_copy_values_live:
  "q \<noteq> 0 \<Longrightarrow> map_of (blocks s) q = Some cs \<Longrightarrow> i + length vs \<le> length cs \<Longrightarrow>
   std_copy_values s vs q i =
     Inr (s\<lparr>blocks := AList.update q (take i cs @ map Some vs @ drop (i + length vs) cs) (blocks s)\<rparr>)"
proof (induction vs arbitrary: s i cs)
  case Nil
  then show ?case by (simp add: AList.update_triv)
next
  case (Cons v vs)
  let ?s' = "s\<lparr>blocks := AList.update q (cs[i := Some v]) (blocks s)\<rparr>"
  from Cons.prems have i: "i < length cs" by simp
  have st: "store s q i (Some v) = Inr ?s'"
    using Cons.prems i by (simp add: store_def)
  have m: "map_of (blocks ?s') q = Some (cs[i := Some v])"
    by (simp add: AList.update_conv')
  have l: "Suc i + length vs \<le> length (cs[i := Some v])"
    using Cons.prems by simp
  have eq: "take (Suc i) (cs[i := Some v]) @ map Some vs @ drop (Suc i + length vs) (cs[i := Some v])
          = take i cs @ map Some (v # vs) @ drop (i + length (v # vs)) cs"
    using i by (simp add: take_Suc_conv_app_nth)
  show ?case
    using Cons.IH [OF Cons.prems(1) m l] st eq by simp
qed

lemma std_copy_same:
  "p \<noteq> 0 \<Longrightarrow> map_of (blocks s) p = Some cs \<Longrightarrow> i + k \<le> length cs \<Longrightarrow>
   std_copy s p p i k = Inr s"
proof (induction k arbitrary: i)
  case 0
  then show ?case by simp
next
  case (Suc k)
  from Suc.prems have i: "i < length cs" by simp
  have ld: "load s p i = Inr (cs ! i)"
    using Suc.prems i by (simp add: load_def)
  have st: "store s p i (cs ! i) = Inr s"
    using Suc.prems i by (simp add: store_def AList.update_triv)
  show ?case
    using Suc.IH [of "Suc i"] Suc.prems ld st by simp
qed

lemma std_copy_distinct:
  "first \<noteq> 0 \<Longrightarrow> d_first \<noteq> 0 \<Longrightarrow> first \<noteq> d_first \<Longrightarrow>
   map_of (blocks s) first = Some src \<Longrightarrow> map_of (blocks s) d_first = Some dst \<Longrightarrow>
   i + k \<le> length src \<Longrightarrow> i + k \<le> length dst \<Longrightarrow>
   std_copy s first d_first i k =
     Inr (s\<lparr>blocks := AList.update d_first
                         (take i dst @ take k (drop i src) @ drop (i + k) dst) (blocks s)\<rparr>)"
proof (induction k arbitrary: s i dst)
  case 0
  then show ?case by (simp add: AList.update_triv)
next
  case (Suc k)
  let ?s' = "s\<lparr>blocks := AList.update d_first (dst[i := src ! i]) (blocks s)\<rparr>"
  from Suc.prems have i: "i < length src" "i < length dst" by simp_all
  have ld: "load s first i = Inr (src ! i)"
    using Suc.prems i by (simp add: load_def)
  have st: "store s d_first i (src ! i) = Inr ?s'"
    using Suc.prems i by (simp add: store_def)
  have m1: "map_of (blocks ?s') first = Some src"
    using Suc.prems by (simp add: AList.update_conv')
  have m2: "map_of (blocks ?s') d_first = Some (dst[i := src ! i])"
    by (simp add: AList.update_conv')
  have l1: "Suc i + k \<le> length src" and l2: "Suc i + k \<le> length (dst[i := src ! i])"
    using Suc.prems by simp_all
  have eq: "take (Suc i) (dst[i := src ! i]) @ take k (drop (Suc i) src)
              @ drop (Suc i + k) (dst[i := src ! i])
          = take i dst @ take (Suc k) (drop i src) @ drop (i + Suc k) dst"
    using i by (simp add: take_Suc_conv_app_nth Cons_nth_drop_Suc [symmetric])
  have "std_copy s first d_first i (Suc k) = std_copy ?s' first d_first (Suc i) k"
    using ld st by simp
  also have "\<dots> = Inr (?s'\<lparr>blocks := AList.update d_first
                 (take (Suc i) (dst[i := src ! i]) @ take k (drop (Suc i) src)
                    @ drop (Suc i + k) (dst[i := src ! i])) (blocks ?s')\<rparr>)"
    by (rule Suc.IH [OF Suc.prems(1-3) m1 m2 l1 l2])
  also have "\<dots> = Inr (s\<lparr>blocks := AList.update d_first
                 (take i dst @ take (Suc k) (drop i src) @ drop (i + Suc k) dst) (blocks s)\<rparr>)"
    unfolding eq by simp
  finally show ?case .
qed


lemma read_cells_cong:
  "map_of (blocks s') p = map_of (blocks s) p \<Longrightarrow> read_cells s' p i k = read_cells s p i k"
proof (induction k arbitrary: i)
  case 0
  show ?case by simp
next
  case (Suc k)
  have "load s' p i = load s p i"
    using Suc.prems by (simp add: load_def)
  then show ?case
    using Suc.IH [OF Suc.prems, of "Suc i"] by (simp cong: sum.case_cong)
qed

lemma printBuffer_cong:
  "objs s' b = objs s b \<Longrightarrow>
   map_of (blocks s') (ptr_' (objs s b)) = map_of (blocks s) (ptr_' (objs s b)) \<Longrightarrow>
   printBuffer s' b = printBuffer s b"
  unfolding printBuffer_def by (simp add: read_cells_cong [of s' _ s])

lemma printBuffer_null: "ptr_' (objs s b) = 0 \<Longrightarrow> size_' (objs s b) = 0 \<Longrightarrow> printBuffer s b = Inr []"
  by (simp add: printBuffer_def)

lemma printBuffer_live:
  "ptr_' (objs s b) \<noteq> 0 \<Longrightarrow> map_of (blocks s) (ptr_' (objs s b)) = Some cs \<Longrightarrow>
   length cs = size_' (objs s b) \<Longrightarrow> printBuffer s b = Inr cs"
  by (simp add: printBuffer_def read_cells_live)

lemma store_frame:
  assumes "store s p i c = Inr s'"
  shows "objs s' = objs s" and "avail s' = avail s"
    and "q \<noteq> p \<Longrightarrow> map_of (blocks s') q = map_of (blocks s) q"
    and "map_option length (map_of (blocks s') q) = map_option length (map_of (blocks s) q)"
  using assms
  by (auto simp: store_def AList.update_conv' split: if_splits option.splits)

lemma Buffer_dtor_frame:
  assumes "valid_buffer s b"
  shows "\<exists>s'. Buffer_dtor s b = Inr s' \<and>
           (\<forall>q. q \<noteq> ptr_' (objs s b) \<longrightarrow> map_of (blocks s') q = map_of (blocks s) q) \<and>
           (\<forall>c. c \<noteq> b \<longrightarrow> objs s' c = objs s c)"
  using assms
  by (auto simp: valid_buffer_def Buffer_dtor_def delete_array_def set_ptr_def
      split: if_splits option.splits)

subsection \<open>What the member functions compute\<close>

lemma Buffer_ctor_ok:
  assumes "length values \<le> avail s"
  shows "Buffer_ctor s this values =
     Inr \<lparr>objs = (objs s)(this := (objs s this)\<lparr>size_' := length values,
                                                 ptr_' := fresh_addr (blocks s)\<rparr>),
           blocks = (fresh_addr (blocks s), map Some values) # blocks s,
           avail = avail s - length values\<rparr>"
proof (cases s)
  case (fields ob bl av)
  let ?p = "fresh_addr bl"
  let ?s3 = "\<lparr>objs = ob(this := (ob this)\<lparr>size_' := length values, ptr_' := ?p\<rparr>),
              blocks = (?p, replicate (length values) None) # bl,
              avail = av - length values\<rparr>"
  have "std_copy_values ?s3 values ?p 0 =
        Inr (?s3\<lparr>blocks := AList.update ?p
               (take 0 (replicate (length values) None) @ map Some values
                  @ drop (0 + length values) (replicate (length values) None)) (blocks ?s3)\<rparr>)"
    by (rule std_copy_values_live) (simp_all add: fresh_addr_nonnull)
  then show ?thesis
    using assms fields
    by (simp add: Buffer_ctor_def new_float_array_def set_size_def set_ptr_def Let_def)
qed

section \<open>Construction\<close>

text \<open>
  Claim C1 (construction round-trip). For every sequence \<open>values\<close>, the empty one
  included, that the free store has room for, the constructor returns, the buffer's size
  is the length of \<open>values\<close>, and reading the buffer back through its pointer, as
  \<^verbatim>\<open>printBuffer\<close> does, gives the elements of \<open>values\<close> in order.
\<close>

theorem ctor_round_trip:
  assumes "length values \<le> avail s"
  shows "\<exists>s'. Buffer_ctor s this values = Inr s' \<and>
           size_' (objs s' this) = length values \<and>
           printBuffer s' this = Inr (map Some values)"
  using assms
  by (simp add: Buffer_ctor_ok printBuffer_live fresh_addr_nonnull)

theorem ctor_round_trip_witness:
  "length [f1, f2, f3] \<le> avail (init_state 3) \<and>
   (\<exists>s'. Buffer_ctor (init_state 3) 0 [f1, f2, f3] = Inr s' \<and>
      size_' (objs s' 0) = length [f1, f2, f3] \<and>
      printBuffer s' 0 = Inr (map Some [f1, f2, f3]))"
  using ctor_round_trip [of "[f1, f2, f3]" "init_state 3" 0]
  by (simp add: init_state_def)

section \<open>Swap, move and destruction\<close>

lemma Buffer_fields: "(r::Buffer)\<lparr>size_' := n, ptr_' := p\<rparr> = \<lparr>size_' = n, ptr_' = p\<rparr>"
  by (cases r) simp

lemma set_ptr_same: "ptr_' (objs s b) = p \<Longrightarrow> set_ptr s b p = s"
  by (auto simp: set_ptr_def)

lemma set_size_same: "size_' (objs s b) = n \<Longrightarrow> set_size s b n = s"
  by (auto simp: set_size_def)

lemma Buffer_dtor_null: "ptr_' (objs s b) = 0 \<Longrightarrow> Buffer_dtor s b = Inr s"
  by (simp add: Buffer_dtor_def delete_array_def set_ptr_same)

lemma Buffer_swap_objs:
  "objs (Buffer_swap s a b) = (objs s)(a := objs s b, b := objs s a)"
  by (auto simp: Buffer_swap_def set_size_def set_ptr_def Let_def fun_eq_iff)

lemma Buffer_swap_heap:
  "blocks (Buffer_swap s a b) = blocks s" "avail (Buffer_swap s a b) = avail s"
  by (simp_all add: Buffer_swap_def set_size_def set_ptr_def Let_def)

lemma Buffer_move_ctor_objs:
  "this \<noteq> other \<Longrightarrow>
   objs (Buffer_move_ctor s this other) =
     (objs s)(this := objs s other, other := \<lparr>size_' = 0, ptr_' = 0\<rparr>)"
  by (auto simp: Buffer_move_ctor_def set_size_def set_ptr_def Let_def fun_eq_iff Buffer_fields)


lemma Buffer_move_ctor_heap:
  "blocks (Buffer_move_ctor s this other) = blocks s"
  "avail (Buffer_move_ctor s this other) = avail s"
  by (simp_all add: Buffer_move_ctor_def set_size_def set_ptr_def Let_def)

lemma Buffer_move_assign_objs:
  "this \<noteq> other \<Longrightarrow>
   objs (Buffer_move_assign s this other) =
     (objs s)(this := objs s other, other := \<lparr>size_' = 0, ptr_' = 0\<rparr>)"
  by (auto simp: Buffer_move_assign_def set_size_def set_ptr_def Let_def fun_eq_iff Buffer_fields)

lemma Buffer_move_assign_heap:
  "blocks (Buffer_move_assign s this other) = blocks s"
  "avail (Buffer_move_assign s this other) = avail s"
  by (simp_all add: Buffer_move_assign_def set_size_def set_ptr_def Let_def)

lemma Buffer_move_ctor_source:
  "objs (Buffer_move_ctor s this other) other = \<lparr>size_' = 0, ptr_' = 0\<rparr>"
  by (simp add: Buffer_move_ctor_def set_size_def set_ptr_def Let_def Buffer_fields)

lemma Buffer_move_assign_source:
  "objs (Buffer_move_assign s this other) other = \<lparr>size_' = 0, ptr_' = 0\<rparr>"
  by (simp add: Buffer_move_assign_def set_size_def set_ptr_def Let_def Buffer_fields)

text \<open>
  Claim C6 (swap). For every two buffers, the same object twice included, \<^verbatim>\<open>swap\<close>
  exchanges the two sizes and the two pointers and nothing else: afterwards each buffer reads
  back what the other one read back before. The arrays and the room left in the free store
  are unchanged, so nothing was allocated, and \<^verbatim>\<open>swap\<close> returns a state on every input:
  it cannot fail.
\<close>

theorem swap_exchanges:
  "objs (Buffer_swap s a b) = (objs s)(a := objs s b, b := objs s a) \<and>
   blocks (Buffer_swap s a b) = blocks s \<and>
   avail (Buffer_swap s a b) = avail s \<and>
   printBuffer (Buffer_swap s a b) a = printBuffer s b \<and>
   printBuffer (Buffer_swap s a b) b = printBuffer s a"
proof -
  let ?s' = "Buffer_swap s a b"
  have o: "objs ?s' = (objs s)(a := objs s b, b := objs s a)"
    by (rule Buffer_swap_objs)
  have h: "blocks ?s' = blocks s" "avail ?s' = avail s"
    by (rule Buffer_swap_heap)+
  have pa: "printBuffer ?s' a = printBuffer s b"
    unfolding printBuffer_def using o h
    by (simp add: read_cells_cong [of ?s' _ s])
  have pb: "printBuffer ?s' b = printBuffer s a"
    unfolding printBuffer_def using o h
    by (simp add: read_cells_cong [of ?s' _ s])
  from o h pa pb show ?thesis by simp
qed

text \<open>
  Claim C3 (move). When source and destination are different objects, move construction
  and move assignment leave the destination with the source's former size and pointer, so
  that it reads back the source's former elements, and leave the source with size 0 and a
  null pointer. No array is touched.
\<close>

theorem move_transfers:
  assumes "this \<noteq> other"
  shows "objs (Buffer_move_ctor s this other) =
           (objs s)(this := objs s other, other := \<lparr>size_' = 0, ptr_' = 0\<rparr>) \<and>
         blocks (Buffer_move_ctor s this other) = blocks s \<and>
         printBuffer (Buffer_move_ctor s this other) this = printBuffer s other \<and>
         objs (Buffer_move_assign s this other) =
           (objs s)(this := objs s other, other := \<lparr>size_' = 0, ptr_' = 0\<rparr>) \<and>
         blocks (Buffer_move_assign s this other) = blocks s \<and>
         printBuffer (Buffer_move_assign s this other) this = printBuffer s other"
proof -
  let ?c = "Buffer_move_ctor s this other" and ?a = "Buffer_move_assign s this other"
  have oc: "objs ?c = (objs s)(this := objs s other, other := \<lparr>size_' = 0, ptr_' = 0\<rparr>)"
    using assms by (simp add: Buffer_move_ctor_objs)
  have oa: "objs ?a = (objs s)(this := objs s other, other := \<lparr>size_' = 0, ptr_' = 0\<rparr>)"
    using assms by (simp add: Buffer_move_assign_objs)
  have hc: "blocks ?c = blocks s" and ha: "blocks ?a = blocks s"
    by (rule Buffer_move_ctor_heap Buffer_move_assign_heap)+
  have pc: "printBuffer ?c this = printBuffer s other"
    unfolding printBuffer_def using oc hc assms
    by (simp add: read_cells_cong [of ?c _ s])
  have pa: "printBuffer ?a this = printBuffer s other"
    unfolding printBuffer_def using oa ha assms
    by (simp add: read_cells_cong [of ?a _ s])
  from oc oa hc ha pc pa show ?thesis by simp
qed

theorem move_transfers_witness:
  "(0::obj) \<noteq> 1 \<and>
   objs (Buffer_move_ctor (one_buffer 0) 1 0) 1 = \<lparr>size_' = 3, ptr_' = 1\<rparr> \<and>
   objs (Buffer_move_ctor (one_buffer 0) 1 0) 0 = \<lparr>size_' = 0, ptr_' = 0\<rparr> \<and>
   printBuffer (Buffer_move_ctor (one_buffer 0) 1 0) 1 = Inr [Some f1, Some f2, Some f3] \<and>
   objs (Buffer_move_assign (one_buffer 0) 1 0) 1 = \<lparr>size_' = 3, ptr_' = 1\<rparr> \<and>
   objs (Buffer_move_assign (one_buffer 0) 1 0) 0 = \<lparr>size_' = 0, ptr_' = 0\<rparr> \<and>
   printBuffer (Buffer_move_assign (one_buffer 0) 1 0) 1 = Inr [Some f1, Some f2, Some f3]"
proof -
  have p: "printBuffer (one_buffer 0) 0 = Inr [Some f1, Some f2, Some f3]"
    by (simp add: printBuffer_live one_buffer_def)
  have o: "objs (one_buffer 0) 0 = \<lparr>size_' = 3, ptr_' = 1\<rparr>"
    by (simp add: one_buffer_def)
  show ?thesis
    using move_transfers [of 1 0 "one_buffer 0"] p o by simp
qed

text \<open>
  Claim C10 (self-move-assignment). For every buffer \<open>b\<close>, \<^verbatim>\<open>b = std::move(b)\<close> leaves
  \<open>b\<close> with size 0 and a null pointer, whatever it held; no array is released, and the
  destructor run afterwards deletes nothing and changes nothing.
\<close>

theorem self_move_assign_empties:
  "objs (Buffer_move_assign s b b) = (objs s)(b := \<lparr>size_' = 0, ptr_' = 0\<rparr>) \<and>
   blocks (Buffer_move_assign s b b) = blocks s \<and>
   avail (Buffer_move_assign s b b) = avail s \<and>
   Buffer_dtor (Buffer_move_assign s b b) b = Inr (Buffer_move_assign s b b)"
proof -
  have "objs (Buffer_move_assign s b b) = (objs s)(b := \<lparr>size_' = 0, ptr_' = 0\<rparr>)"
    by (auto simp: Buffer_move_assign_def set_size_def set_ptr_def Let_def fun_eq_iff
        Buffer_fields)
  moreover have "Buffer_dtor (Buffer_move_assign s b b) b = Inr (Buffer_move_assign s b b)"
    by (rule Buffer_dtor_null) (simp add: Buffer_move_assign_source)
  ultimately show ?thesis
    by (simp add: Buffer_move_assign_heap)
qed

text \<open>
  Claim C8 (destroying an empty buffer). The destructor of a buffer whose pointer is null
  returns normally and leaves the whole state as it was; in particular the destructor of the
  source of a move construction or move assignment does so, and the array now held by the
  destination stays live.
\<close>

theorem destroy_empty_safe:
  "(ptr_' (objs s b) = 0 \<longrightarrow> Buffer_dtor s b = Inr s) \<and>
   Buffer_dtor (Buffer_move_ctor t this other) other = Inr (Buffer_move_ctor t this other) \<and>
   Buffer_dtor (Buffer_move_assign t this other) other = Inr (Buffer_move_assign t this other)"
proof -
  have "Buffer_dtor (Buffer_move_ctor t this other) other = Inr (Buffer_move_ctor t this other)"
    by (rule Buffer_dtor_null) (simp add: Buffer_move_ctor_source)
  moreover have "Buffer_dtor (Buffer_move_assign t this other) other
                 = Inr (Buffer_move_assign t this other)"
    by (rule Buffer_dtor_null) (simp add: Buffer_move_assign_source)
  ultimately show ?thesis
    by (simp add: Buffer_dtor_null)
qed

theorem destroy_empty_safe_witness:
  "ptr_' (objs (init_state 0) 0) = 0 \<and> Buffer_dtor (init_state 0) 0 = Inr (init_state 0) \<and>
   Buffer_dtor (Buffer_move_ctor (one_buffer 0) 1 0) 0 = Inr (Buffer_move_ctor (one_buffer 0) 1 0) \<and>
   blocks (Buffer_move_ctor (one_buffer 0) 1 0) = [(1, [Some f1, Some f2, Some f3])]"
proof -
  have "ptr_' (objs (init_state 0) 0) = 0"
    by (simp add: init_state_def)
  moreover have "blocks (Buffer_move_ctor (one_buffer 0) 1 0) = [(1, [Some f1, Some f2, Some f3])]"
    by (simp add: Buffer_move_ctor_heap one_buffer_def)
  ultimately show ?thesis
    using destroy_empty_safe [of "init_state 0" 0 "one_buffer 0" 1 0] by simp
qed

section \<open>Copy construction\<close>

lemma valid_buffer_print:
  assumes "valid_buffer s b"
  shows "\<exists>cs. printBuffer s b = Inr cs \<and> length cs = size_' (objs s b)"
proof (cases "ptr_' (objs s b) = 0")
  case True
  with assms show ?thesis
    by (simp add: valid_buffer_def printBuffer_null)
next
  case False
  with assms obtain cs where "map_of (blocks s) (ptr_' (objs s b)) = Some cs"
    and "length cs = size_' (objs s b)"
    by (auto simp: valid_buffer_def split: option.splits)
  with False show ?thesis
    by (simp add: printBuffer_live)
qed

lemma valid_buffer_live:
  "valid_buffer s b \<Longrightarrow> ptr_' (objs s b) \<noteq> 0 \<Longrightarrow> map_of (blocks s) (ptr_' (objs s b)) \<noteq> None"
  by (auto simp: valid_buffer_def split: option.splits)

lemma valid_buffer_not_fresh:
  assumes "valid_buffer s b"
  shows "ptr_' (objs s b) \<noteq> fresh_addr (blocks s)"
proof (cases "ptr_' (objs s b) = 0")
  case True
  then show ?thesis using fresh_addr_nonnull [of "blocks s"] by simp
next
  case False
  then show ?thesis
    using valid_buffer_live [OF assms] fresh_addr_unused [of "blocks s"] by auto
qed

lemma Buffer_copy_ctor_ok:
  assumes "this \<noteq> other" and "valid_buffer s other" and "printBuffer s other = Inr cs"
    and "size_' (objs s other) \<le> avail s"
  shows "Buffer_copy_ctor s this other =
     Inr \<lparr>objs = (objs s)(this := \<lparr>size_' = size_' (objs s other),
                                  ptr_' = fresh_addr (blocks s)\<rparr>),
          blocks = (fresh_addr (blocks s), cs) # blocks s,
          avail = avail s - size_' (objs s other)\<rparr>"
proof (cases s)
  case (fields ob bl av)
  let ?n = "size_' (ob other)" and ?q = "ptr_' (ob other)" and ?p = "fresh_addr bl"
  let ?s3 = "\<lparr>objs = ob(this := \<lparr>size_' = ?n, ptr_' = ?p\<rparr>),
              blocks = (?p, replicate ?n None) # bl, avail = av - ?n\<rparr>"
  have unfold: "Buffer_copy_ctor s this other = std_copy ?s3 ?q ?p 0 ?n"
    using assms(1,4) fields
    by (simp add: Buffer_copy_ctor_def new_float_array_def set_size_def set_ptr_def Let_def
        Buffer_fields)
  show ?thesis
  proof (cases "?q = 0")
    case True
    with assms(2,3) fields have "?n = 0" "cs = []"
      by (simp_all add: valid_buffer_def printBuffer_null)
    with unfold fields show ?thesis by simp
  next
    case False
    with assms(2) fields obtain src where src: "map_of bl ?q = Some src" "length src = ?n"
      by (auto simp: valid_buffer_def split: option.splits)
    with False assms(3) fields have cs: "cs = src"
      by (simp add: printBuffer_live)
    have ne: "?q \<noteq> ?p"
      using valid_buffer_not_fresh [OF assms(2)] fields by simp
    have "std_copy ?s3 ?q ?p 0 ?n =
          Inr (?s3\<lparr>blocks := AList.update ?p
                 (take 0 (replicate ?n None) @ take ?n (drop 0 src)
                    @ drop (0 + ?n) (replicate ?n None)) (blocks ?s3)\<rparr>)"
      using False ne src
      by (intro std_copy_distinct) (simp_all add: fresh_addr_nonnull)
    with unfold src cs fields show ?thesis by simp
  qed
qed


text \<open>
  Claim C2 (deep-copy independence). Let \<open>other\<close> be a valid buffer and \<open>this\<close> a
  different object, and let the free store have room for the copy. Then copy construction
  returns; the new buffer has the source's size and reads back the source's elements, and so
  does the source still. The copy's array is a new one: its address is not null, differs from
  the source's pointer and was not live before. The two are independent: after any store
  through either pointer the other buffer reads back what the source read back at first, and
  the destructor of either buffer returns and leaves the other buffer's elements as they
  were.
\<close>

theorem deep_copy_independent:
  assumes "this \<noteq> other" and "valid_buffer s other" and "size_' (objs s other) \<le> avail s"
  shows "\<exists>s'. Buffer_copy_ctor s this other = Inr s' \<and>
           size_' (objs s' this) = size_' (objs s other) \<and>
           printBuffer s' this = printBuffer s other \<and>
           printBuffer s' other = printBuffer s other \<and>
           valid_buffer s' this \<and>
           ptr_' (objs s' this) \<noteq> 0 \<and>
           ptr_' (objs s' this) \<noteq> ptr_' (objs s' other) \<and>
           map_of (blocks s) (ptr_' (objs s' this)) = None \<and>
           (\<forall>i c s''. store s' (ptr_' (objs s' this)) i c = Inr s''
                        \<longrightarrow> printBuffer s'' other = printBuffer s other) \<and>
           (\<forall>i c s''. store s' (ptr_' (objs s' other)) i c = Inr s''
                        \<longrightarrow> printBuffer s'' this = printBuffer s other) \<and>
           (\<exists>s''. Buffer_dtor s' this = Inr s'' \<and> printBuffer s'' other = printBuffer s other) \<and>
           (\<exists>s''. Buffer_dtor s' other = Inr s'' \<and> printBuffer s'' this = printBuffer s other)"
proof -
  let ?n = "size_' (objs s other)" and ?q = "ptr_' (objs s other)"
    and ?p = "fresh_addr (blocks s)"
  obtain cs where cs: "printBuffer s other = Inr cs" "length cs = ?n"
    using valid_buffer_print [OF assms(2)] by blast
  define s' where "s' = \<lparr>objs = (objs s)(this := \<lparr>size_' = ?n, ptr_' = ?p\<rparr>),
                          blocks = (?p, cs) # blocks s, avail = avail s - ?n\<rparr>"
  have run: "Buffer_copy_ctor s this other = Inr s'"
    unfolding s'_def by (rule Buffer_copy_ctor_ok [OF assms(1,2) cs(1) assms(3)])
  have ne: "?q \<noteq> ?p"
    by (rule valid_buffer_not_fresh [OF assms(2)])
  have this': "objs s' this = \<lparr>size_' = ?n, ptr_' = ?p\<rparr>"
    and other': "objs s' other = objs s other"
    and live: "map_of (blocks s') ?p = Some cs"
    and old: "map_of (blocks s') ?q = map_of (blocks s) ?q"
    using assms(1) ne by (simp_all add: s'_def)
  have p0: "?p \<noteq> 0" by (rule fresh_addr_nonnull)
  have pt: "printBuffer s' this = Inr cs"
    using this' live cs(2) p0 by (simp add: printBuffer_live)
  have po: "printBuffer s' other = printBuffer s other"
    using other' old by (intro printBuffer_cong) simp_all
  have vt: "valid_buffer s' this"
    using this' live cs(2) p0 by (simp add: valid_buffer_def)
  have vo: "valid_buffer s' other"
    using assms(2) other' old by (simp add: valid_buffer_def cong: option.case_cong)
  have w1: "printBuffer s'' other = printBuffer s other"
    if "store s' (ptr_' (objs s' this)) i c = Inr s''" for i c s''
  proof -
    have "objs s'' other = objs s' other"
      using store_frame(1) [OF that] by simp
    moreover have "map_of (blocks s'') ?q = map_of (blocks s') ?q"
      using store_frame(3) [OF that, of ?q] ne this' by simp
    ultimately have "printBuffer s'' other = printBuffer s' other"
      using other' by (intro printBuffer_cong) simp_all
    with po show ?thesis by simp
  qed
  have w2: "printBuffer s'' this = printBuffer s other"
    if "store s' (ptr_' (objs s' other)) i c = Inr s''" for i c s''
  proof -
    have "objs s'' this = objs s' this"
      using store_frame(1) [OF that] by simp
    moreover have "map_of (blocks s'') ?p = map_of (blocks s') ?p"
      using store_frame(3) [OF that, of ?p] ne other' by simp
    ultimately have "printBuffer s'' this = printBuffer s' this"
      using this' by (intro printBuffer_cong) simp_all
    with pt cs(1) show ?thesis by simp
  qed
  have d1: "\<exists>s''. Buffer_dtor s' this = Inr s'' \<and> printBuffer s'' other = printBuffer s other"
  proof -
    obtain s'' where d: "Buffer_dtor s' this = Inr s''"
      and b: "\<forall>q. q \<noteq> ptr_' (objs s' this) \<longrightarrow> map_of (blocks s'') q = map_of (blocks s') q"
      and ob: "\<forall>c. c \<noteq> this \<longrightarrow> objs s'' c = objs s' c"
      using Buffer_dtor_frame [OF vt] by blast
    have "objs s'' other = objs s' other"
      using ob assms(1) by simp
    moreover have "map_of (blocks s'') ?q = map_of (blocks s') ?q"
      using b ne this' by simp
    ultimately have "printBuffer s'' other = printBuffer s' other"
      using other' by (intro printBuffer_cong) simp_all
    with d po show ?thesis by simp
  qed
  have d2: "\<exists>s''. Buffer_dtor s' other = Inr s'' \<and> printBuffer s'' this = printBuffer s other"
  proof -
    obtain s'' where d: "Buffer_dtor s' other = Inr s''"
      and b: "\<forall>q. q \<noteq> ptr_' (objs s' other) \<longrightarrow> map_of (blocks s'') q = map_of (blocks s') q"
      and ob: "\<forall>c. c \<noteq> other \<longrightarrow> objs s'' c = objs s' c"
      using Buffer_dtor_frame [OF vo] by blast
    have "objs s'' this = objs s' this"
      using ob assms(1) by simp
    moreover have "map_of (blocks s'') ?p = map_of (blocks s') ?p"
      using b ne other' by simp
    ultimately have "printBuffer s'' this = printBuffer s' this"
      using this' by (intro printBuffer_cong) simp_all
    with d pt cs(1) show ?thesis by simp
  qed
  have fresh: "map_of (blocks s) (ptr_' (objs s' this)) = None"
    using this' by (simp add: fresh_addr_unused)
  have "size_' (objs s' this) = ?n" "ptr_' (objs s' this) \<noteq> 0"
    "ptr_' (objs s' this) \<noteq> ptr_' (objs s' other)"
    using this' other' p0 ne by simp_all
  with run pt po vt fresh w1 w2 d1 d2 cs(1) show ?thesis
    by (intro exI [of _ s']) simp
qed


theorem deep_copy_independent_witness:
  "(1::obj) \<noteq> 0 \<and> valid_buffer (one_buffer 3) 0 \<and>
   size_' (objs (one_buffer 3) 0) \<le> avail (one_buffer 3) \<and>
   (\<exists>s' s''. Buffer_copy_ctor (one_buffer 3) 1 0 = Inr s' \<and>
      printBuffer s' 1 = Inr [Some f1, Some f2, Some f3] \<and>
      ptr_' (objs s' 1) \<noteq> ptr_' (objs s' 0) \<and>
      store s' (ptr_' (objs s' 1)) 0 (Some f3) = Inr s'' \<and>
      printBuffer s'' 1 = Inr [Some f3, Some f2, Some f3] \<and>
      printBuffer s'' 0 = Inr [Some f1, Some f2, Some f3])"
proof -
  have h1: "(1::obj) \<noteq> 0" by simp
  have h2: "valid_buffer (one_buffer 3) 0"
    by (simp add: valid_buffer_def one_buffer_def)
  have h3: "size_' (objs (one_buffer 3) 0) \<le> avail (one_buffer 3)"
    by (simp add: one_buffer_def)
  have p0: "printBuffer (one_buffer 3) 0 = Inr [Some f1, Some f2, Some f3]"
    by (simp add: printBuffer_live one_buffer_def)
  obtain s' where run: "Buffer_copy_ctor (one_buffer 3) 1 0 = Inr s'"
    and p1: "printBuffer s' 1 = printBuffer (one_buffer 3) 0"
    and v: "valid_buffer s' 1"
    and nz: "ptr_' (objs s' 1) \<noteq> 0"
    and ne: "ptr_' (objs s' 1) \<noteq> ptr_' (objs s' 0)"
    and w: "\<forall>i c s''. store s' (ptr_' (objs s' 1)) i c = Inr s''
              \<longrightarrow> printBuffer s'' 0 = printBuffer (one_buffer 3) 0"
    using deep_copy_independent [OF h1 h2 h3] by blast
  have sz: "size_' (objs s' 1) = 3"
    using run Buffer_copy_ctor_ok [OF h1 h2 p0 h3] by (auto simp: one_buffer_def)
  from v nz sz have bl: "map_of (blocks s') (ptr_' (objs s' 1)) = Some [Some f1, Some f2, Some f3]"
    using p1 p0 by (auto simp: valid_buffer_def printBuffer_live split: option.splits)
  define s'' where "s'' = s'\<lparr>blocks := AList.update (ptr_' (objs s' 1))
                               [Some f3, Some f2, Some f3] (blocks s')\<rparr>"
  have st: "store s' (ptr_' (objs s' 1)) 0 (Some f3) = Inr s''"
    using nz bl by (simp add: store_def s''_def)
  have q1: "printBuffer s'' 1 = Inr [Some f3, Some f2, Some f3]"
    using nz sz by (simp add: printBuffer_live s''_def AList.update_conv')
  have q0: "printBuffer s'' 0 = Inr [Some f1, Some f2, Some f3]"
    using w st p0 by simp
  have "\<exists>s' s''. Buffer_copy_ctor (one_buffer 3) 1 0 = Inr s' \<and>
      printBuffer s' 1 = Inr [Some f1, Some f2, Some f3] \<and>
      ptr_' (objs s' 1) \<noteq> ptr_' (objs s' 0) \<and>
      store s' (ptr_' (objs s' 1)) 0 (Some f3) = Inr s'' \<and>
      printBuffer s'' 1 = Inr [Some f3, Some f2, Some f3] \<and>
      printBuffer s'' 0 = Inr [Some f1, Some f2, Some f3]"
    using run p1 p0 ne st q1 q0
    by (intro exI [of _ s'] exI [of _ s'']) simp
  with h1 h2 h3 show ?thesis by simp
qed

section \<open>The invariant of the data model\<close>

lemma std_copy_frame:
  assumes "std_copy s first d_first i k = Inr s'"
  shows "objs s' = objs s \<and> avail s' = avail s \<and>
         (\<forall>q. map_option length (map_of (blocks s') q) = map_option length (map_of (blocks s) q))"
  using assms
proof (induction k arbitrary: s i)
  case 0
  then show ?case by simp
next
  case (Suc k)
  from Suc.prems obtain c t where ld: "load s first i = Inr c"
    and st: "store s d_first i c = Inr t"
    and rest: "std_copy t first d_first (Suc i) k = Inr s'"
    by (auto split: sum.splits)
  from Suc.IH [OF rest] store_frame(1,2,4) [OF st] show ?case
    by simp
qed

lemma std_copy_values_frame:
  assumes "std_copy_values s vs d_first i = Inr s'"
  shows "objs s' = objs s \<and> avail s' = avail s \<and>
         (\<forall>q. map_option length (map_of (blocks s') q) = map_option length (map_of (blocks s) q))"
  using assms
proof (induction vs arbitrary: s i)
  case Nil
  then show ?case by simp
next
  case (Cons v vs)
  from Cons.prems obtain t where st: "store s d_first i (Some v) = Inr t"
    and rest: "std_copy_values t vs d_first (Suc i) = Inr s'"
    by (auto split: sum.splits)
  from Cons.IH [OF rest] store_frame(1,2,4) [OF st] show ?case
    by simp
qed

lemma valid_by_length:
  assumes "ptr_' (objs s b) \<noteq> 0"
    and "map_option length (map_of (blocks s) (ptr_' (objs s b))) = Some (size_' (objs s b))"
  shows "valid_buffer s b"
  using assms by (auto simp: valid_buffer_def split: option.splits)

lemma Buffer_ctor_valid:
  assumes "Buffer_ctor s this values = Inr s'"
  shows "ptr_' (objs s' this) \<noteq> 0 \<and> valid_buffer s' this \<and>
         size_' (objs s' this) = length values"
proof -
  from assms have "length values \<le> avail s"
    by (auto simp: Buffer_ctor_def new_float_array_def set_size_def Let_def split: if_splits)
  with assms have s': "s' = \<lparr>objs = (objs s)(this := (objs s this)\<lparr>size_' := length values,
                                                 ptr_' := fresh_addr (blocks s)\<rparr>),
           blocks = (fresh_addr (blocks s), map Some values) # blocks s,
           avail = avail s - length values\<rparr>"
    by (simp add: Buffer_ctor_ok)
  show ?thesis
    by (simp add: s' valid_buffer_def fresh_addr_nonnull)
qed

lemma Buffer_copy_ctor_valid:
  assumes "Buffer_copy_ctor s this other = Inr s'"
  shows "ptr_' (objs s' this) \<noteq> 0 \<and> valid_buffer s' this \<and>
         size_' (objs s' this) = size_' (objs s other)"
proof -
  let ?n = "size_' (objs s other)" and ?p = "fresh_addr (blocks s)"
  define s3 where "s3 = set_ptr (set_size s this ?n\<lparr>blocks := (?p, replicate ?n None) # blocks s,
                            avail := avail s - ?n\<rparr>) this ?p"
  from assms have cp: "std_copy s3 (ptr_' (objs s3 other)) (ptr_' (objs s3 this)) 0
                         (size_' (objs s3 this)) = Inr s'"
    by (auto simp: Buffer_copy_ctor_def new_float_array_def set_size_def set_ptr_def Let_def
        s3_def split: if_splits)
  have 3: "ptr_' (objs s3 this) = ?p" "size_' (objs s3 this) = ?n"
    "map_of (blocks s3) ?p = Some (replicate ?n None)"
    by (simp_all add: s3_def set_size_def set_ptr_def)
  from std_copy_frame [OF cp] have o: "objs s' = objs s3"
    and l: "map_option length (map_of (blocks s') ?p) = map_option length (map_of (blocks s3) ?p)"
    by simp_all
  have "valid_buffer s' this"
    using o l 3 by (intro valid_by_length) (simp_all add: fresh_addr_nonnull)
  with o 3 show ?thesis by (simp add: fresh_addr_nonnull)
qed


lemma delete_array_objs: "delete_array s p = Inr s1 \<Longrightarrow> objs s1 = objs s"
  by (auto simp: delete_array_def split: if_splits option.splits)

lemma Buffer_copy_assign_valid:
  assumes "Buffer_copy_assign s this other = Inr s'"
  shows "ptr_' (objs s' this) \<noteq> 0 \<and> valid_buffer s' this \<and>
         size_' (objs s' this) = size_' (objs s other)"
proof -
  let ?n = "size_' (objs s other)"
  from assms obtain s1 where del: "delete_array s (ptr_' (objs s this)) = Inr s1"
    by (auto simp: Buffer_copy_assign_def split: sum.splits)
  have o1: "objs s1 = objs s"
    by (rule delete_array_objs [OF del])
  let ?p = "fresh_addr (blocks s1)"
  define s4 where "s4 = set_size (set_ptr (s1\<lparr>blocks := (?p, replicate ?n None) # blocks s1,
                            avail := avail s1 - ?n\<rparr>) this ?p) this ?n"
  from assms del o1 have cp: "std_copy s4 (ptr_' (objs s4 other)) (ptr_' (objs s4 this)) 0
                         (size_' (objs s4 this)) = Inr s'"
    by (auto simp: Buffer_copy_assign_def new_float_array_def set_size_def set_ptr_def Let_def
        s4_def split: if_splits)
  have 4: "ptr_' (objs s4 this) = ?p" "size_' (objs s4 this) = ?n"
    "map_of (blocks s4) ?p = Some (replicate ?n None)"
    by (simp_all add: s4_def set_size_def set_ptr_def)
  from std_copy_frame [OF cp] have o: "objs s' = objs s4"
    and l: "map_option length (map_of (blocks s') ?p) = map_option length (map_of (blocks s4) ?p)"
    by simp_all
  have "valid_buffer s' this"
    using o l 4 by (intro valid_by_length) (simp_all add: fresh_addr_nonnull)
  with o 4 show ?thesis by (simp add: fresh_addr_nonnull)
qed

text \<open>The definitions unfolded to run a member function on a concrete state.\<close>

lemmas eval_defs = Buffer_ctor_def Buffer_copy_ctor_def Buffer_copy_assign_def Buffer_dtor_def
  Buffer_move_ctor_def Buffer_move_assign_def new_float_array_def delete_array_def load_def
  store_def set_size_def set_ptr_def Let_def numeral_2_eq_2 numeral_3_eq_3

text \<open>The two example states are what the constructor produces from the initial state.\<close>

lemma one_buffer_reached:
  "Buffer_ctor (init_state (3 + r)) 0 [f1, f2, f3] = Inr (one_buffer r)"
  by (simp add: eval_defs init_state_def one_buffer_def)

lemma two_buffers_reached:
  "Buffer_ctor (projr (Buffer_ctor (init_state (5 + r)) 0 [f1, f2])) 1 [f1, f2, f3]
     = Inr (two_buffers r)"
  by (simp add: eval_defs init_state_def two_buffers_def)

text \<open>
  Claim C7 says that every buffer an operation produces has a null pointer when its size is
  0. The constructor breaks this on the empty initializer list: in the initial state
  \<^verbatim>\<open>Buffer b(std::initializer_list<float>{});\<close> returns, and \<open>b\<close> has size 0 and the
  non-null pointer that \<^verbatim>\<open>new float[0]\<close> returned.
\<close>

theorem size_zero_null_counterexample:
  "\<not> isl (Buffer_ctor (init_state 0) 0 []) \<and>
   size_' (objs (projr (Buffer_ctor (init_state 0) 0 [])) 0) = 0 \<and>
   ptr_' (objs (projr (Buffer_ctor (init_state 0) 0 [])) 0) = 1 \<and>
   \<not> empty_is_null (projr (Buffer_ctor (init_state 0) 0 [])) 0"
  by (simp add: Buffer_ctor_ok empty_is_null_def init_state_def)

text \<open>
  Claim C7 as the code has it. Whenever the constructor, the copy constructor or copy
  assignment returns, the buffer it produced has a non-null pointer to a live array of
  exactly \<^verbatim>\<open>size_\<close> cells, also when the size is 0. The source of a move construction or
  move assignment is left with size 0 and a null pointer, so there size 0 goes with a null
  pointer; the destination of a move between different objects has exactly the source's
  former size and pointer.
\<close>

theorem allocating_operations_own_array:
  "(Buffer_ctor s this values = Inr s1 \<longrightarrow>
      ptr_' (objs s1 this) \<noteq> 0 \<and> valid_buffer s1 this \<and>
      size_' (objs s1 this) = length values) \<and>
   (Buffer_copy_ctor s this other = Inr s2 \<longrightarrow>
      ptr_' (objs s2 this) \<noteq> 0 \<and> valid_buffer s2 this \<and>
      size_' (objs s2 this) = size_' (objs s other)) \<and>
   (Buffer_copy_assign s this other = Inr s3 \<longrightarrow>
      ptr_' (objs s3 this) \<noteq> 0 \<and> valid_buffer s3 this \<and>
      size_' (objs s3 this) = size_' (objs s other)) \<and>
   objs (Buffer_move_ctor s this other) other = \<lparr>size_' = 0, ptr_' = 0\<rparr> \<and>
   objs (Buffer_move_assign s this other) other = \<lparr>size_' = 0, ptr_' = 0\<rparr> \<and>
   empty_is_null (Buffer_move_ctor s this other) other \<and>
   empty_is_null (Buffer_move_assign s this other) other \<and>
   (this \<noteq> other \<longrightarrow>
      objs (Buffer_move_ctor s this other) this = objs s other \<and>
      objs (Buffer_move_assign s this other) this = objs s other)"
proof -
  have "empty_is_null (Buffer_move_ctor s this other) other"
    "empty_is_null (Buffer_move_assign s this other) other"
    by (simp_all add: empty_is_null_def Buffer_move_ctor_source Buffer_move_assign_source)
  moreover have "objs (Buffer_move_ctor s this other) this = objs s other"
    "objs (Buffer_move_assign s this other) this = objs s other" if "this \<noteq> other"
    using that by (simp_all add: Buffer_move_ctor_objs Buffer_move_assign_objs)
  ultimately show ?thesis
    using Buffer_ctor_valid [of s this "values" s1] Buffer_copy_ctor_valid [of s this other s2]
      Buffer_copy_assign_valid [of s this other s3]
    by (simp add: Buffer_move_ctor_source Buffer_move_assign_source)
qed


theorem allocating_operations_own_array_witness:
  "\<exists>s1 s2 s3.
     Buffer_ctor (two_buffers 3) 0 [] = Inr s1 \<and>
     size_' (objs s1 0) = 0 \<and> ptr_' (objs s1 0) \<noteq> 0 \<and> valid_buffer s1 0 \<and>
     Buffer_copy_ctor (two_buffers 3) 0 1 = Inr s2 \<and>
     size_' (objs s2 0) = 3 \<and> ptr_' (objs s2 0) \<noteq> 0 \<and> valid_buffer s2 0 \<and>
     Buffer_copy_assign (two_buffers 3) 0 1 = Inr s3 \<and>
     size_' (objs s3 0) = 3 \<and> ptr_' (objs s3 0) \<noteq> 0 \<and> valid_buffer s3 0 \<and>
     (0::obj) \<noteq> 1 \<and>
     objs (Buffer_move_ctor (two_buffers 3) 0 1) 0 = \<lparr>size_' = 3, ptr_' = 2\<rparr> \<and>
     objs (Buffer_move_assign (two_buffers 3) 0 1) 0 = \<lparr>size_' = 3, ptr_' = 2\<rparr>"
proof -
  obtain s1 where r1: "Buffer_ctor (two_buffers 3) 0 [] = Inr s1"
    by (simp add: eval_defs two_buffers_def)
  obtain s2 where r2: "Buffer_copy_ctor (two_buffers 3) 0 1 = Inr s2"
    by (simp add: eval_defs two_buffers_def)
  obtain s3 where r3: "Buffer_copy_assign (two_buffers 3) 0 1 = Inr s3"
    by (simp add: eval_defs two_buffers_def)
  have o: "objs (two_buffers 3) 1 = \<lparr>size_' = 3, ptr_' = 2\<rparr>"
    by (simp add: two_buffers_def)
  have ne: "(0::obj) \<noteq> 1" by simp
  show ?thesis
    using allocating_operations_own_array [of "two_buffers 3" 0 "[]" s1 1 s2 s3] r1 r2 r3 o ne
    by (intro exI [of _ s1] exI [of _ s2] exI [of _ s3]) simp
qed


section \<open>Assignment over an owned array\<close>

text \<open>
  Claim C4 says that self-copy-assignment leaves the elements unchanged. On
  \<^verbatim>\<open>Buffer b{1.0f, 2.0f, 3.0f}; b = b;\<close> the operator deletes the array of \<open>b\<close>, allocates
  a new one of three cells, and copies that new array onto itself, because \<^verbatim>\<open>other.ptr_\<close>
  is the pointer just assigned. The operator returns, and \<open>b\<close> has size 3 and three cells
  without a determinate value: the elements 1, 2, 3 are gone.
\<close>

theorem self_copy_assign_loses_elements:
  "printBuffer (one_buffer 0) 0 = Inr [Some f1, Some f2, Some f3] \<and>
   Buffer_copy_assign (one_buffer 0) 0 0 =
     Inr ((one_buffer 0)\<lparr>blocks := [(1, [None, None, None])]\<rparr>) \<and>
   printBuffer (projr (Buffer_copy_assign (one_buffer 0) 0 0)) 0 = Inr [None, None, None]"
proof -
  have run: "Buffer_copy_assign (one_buffer 0) 0 0 =
     Inr ((one_buffer 0)\<lparr>blocks := [(1, [None, None, None])]\<rparr>)"
    by (simp add: eval_defs one_buffer_def)
  have before: "printBuffer (one_buffer 0) 0 = Inr [Some f1, Some f2, Some f3]"
    by (simp add: printBuffer_live one_buffer_def)
  have after: "printBuffer ((one_buffer 0)\<lparr>blocks := [(1, [None, None, None])]\<rparr>) 0
               = Inr [None, None, None]"
    by (simp add: printBuffer_live one_buffer_def)
  from run before after show ?thesis by simp
qed

text \<open>
  Claim C5 says that a copy assignment whose allocation fails leaves the destination as it
  was. With \<^verbatim>\<open>Buffer d{1.0f, 2.0f}; Buffer s{1.0f, 2.0f, 3.0f};\<close> and a free store with no
  cell left, \<^verbatim>\<open>d = s\<close> deletes the array of \<open>d\<close>, which gives two cells back, and the
  allocation of three cells throws. In the state the exception leaves, \<open>d\<close> still has size 2
  and its old pointer, the array at that address is no longer live, reading \<open>d\<close> back is an
  invalid access and the destructor of \<open>d\<close> deletes the array a second time.
\<close>

theorem copy_assign_bad_alloc_releases_first:
  "printBuffer (two_buffers 0) 0 = Inr [Some f1, Some f2] \<and>
   Buffer_copy_assign (two_buffers 0) 0 1 =
     Inl (bad_alloc ((two_buffers 0)\<lparr>blocks := [(2, [Some f1, Some f2, Some f3])],
                                      avail := 2\<rparr>)) \<and>
   objs ((two_buffers 0)\<lparr>blocks := [(2, [Some f1, Some f2, Some f3])], avail := 2\<rparr>) 0
     = \<lparr>size_' = 2, ptr_' = 1\<rparr> \<and>
   map_of (blocks ((two_buffers 0)\<lparr>blocks := [(2, [Some f1, Some f2, Some f3])],
                                    avail := 2\<rparr>)) 1 = None \<and>
   printBuffer ((two_buffers 0)\<lparr>blocks := [(2, [Some f1, Some f2, Some f3])], avail := 2\<rparr>) 0
     = Inl invalid_access \<and>
   Buffer_dtor ((two_buffers 0)\<lparr>blocks := [(2, [Some f1, Some f2, Some f3])], avail := 2\<rparr>) 0
     = Inl invalid_delete"
proof -
  have before: "printBuffer (two_buffers 0) 0 = Inr [Some f1, Some f2]"
    by (simp add: printBuffer_live two_buffers_def)
  have run: "Buffer_copy_assign (two_buffers 0) 0 1 =
     Inl (bad_alloc ((two_buffers 0)\<lparr>blocks := [(2, [Some f1, Some f2, Some f3])],
                                      avail := 2\<rparr>))"
    by (simp add: eval_defs two_buffers_def)
  have rd: "printBuffer ((two_buffers 0)\<lparr>blocks := [(2, [Some f1, Some f2, Some f3])],
                                         avail := 2\<rparr>) 0 = Inl invalid_access"
    by (simp add: printBuffer_def load_def two_buffers_def numeral_2_eq_2)
  have dt: "Buffer_dtor ((two_buffers 0)\<lparr>blocks := [(2, [Some f1, Some f2, Some f3])],
                                         avail := 2\<rparr>) 0 = Inl invalid_delete"
    by (simp add: eval_defs two_buffers_def)
  from before run rd dt show ?thesis
    by (simp add: two_buffers_def)
qed

text \<open>
  Claim C9 says that move assignment releases the array the destination owned. With
  \<^verbatim>\<open>Buffer d{1.0f, 2.0f}; Buffer s{1.0f, 2.0f, 3.0f};\<close> the assignment
  \<^verbatim>\<open>d = std::move(s)\<close> leaves every array live and the free store's room unchanged;
  afterwards no object points to the former array of \<open>d\<close>, and it is still live after the
  destructors of both objects have run.
\<close>

theorem move_assign_leaks_old_array:
  "map_of (blocks (two_buffers 0)) (ptr_' (objs (two_buffers 0) 0)) = Some [Some f1, Some f2] \<and>
   blocks (Buffer_move_assign (two_buffers 0) 0 1) = blocks (two_buffers 0) \<and>
   avail (Buffer_move_assign (two_buffers 0) 0 1) = avail (two_buffers 0) \<and>
   (\<forall>b. ptr_' (objs (Buffer_move_assign (two_buffers 0) 0 1) b) \<noteq> 1) \<and>
   \<not> isl (Buffer_dtor (Buffer_move_assign (two_buffers 0) 0 1) 1) \<and>
   \<not> isl (Buffer_dtor (projr (Buffer_dtor (Buffer_move_assign (two_buffers 0) 0 1) 1)) 0) \<and>
   blocks (projr (Buffer_dtor (projr (Buffer_dtor (Buffer_move_assign (two_buffers 0) 0 1) 1)) 0))
     = [(1, [Some f1, Some f2])]"
proof -
  let ?s = "Buffer_move_assign (two_buffers 0) 0 1"
  have o: "objs ?s = (objs (two_buffers 0))(0 := \<lparr>size_' = 3, ptr_' = 2\<rparr>,
                                            1 := \<lparr>size_' = 0, ptr_' = 0\<rparr>)"
    by (simp add: Buffer_move_assign_objs two_buffers_def)
  have nobody: "\<forall>b. ptr_' (objs ?s b) \<noteq> 1"
    unfolding o by (simp add: two_buffers_def)
  have d1: "Buffer_dtor ?s 1 = Inr ?s"
    by (rule Buffer_dtor_null) (simp add: Buffer_move_assign_source)
  have d0: "Buffer_dtor ?s 0 = Inr (set_ptr (?s\<lparr>blocks := [(1, [Some f1, Some f2])],
                                               avail := 3\<rparr>) 0 0)"
    by (simp add: eval_defs two_buffers_def)
  show ?thesis
    using nobody d1 d0
    by (simp add: Buffer_move_assign_heap two_buffers_def set_ptr_def)
qed

end
